theory Spec2Isabelle
  imports Complex_Main "HOL-Library.Word"
begin

unbundle bit_operations_syntax

section \<open>Numbers of the source language\<close>

text \<open>
  The utilities of \<^verbatim>\<open>src/utils/embeddings.ts\<close> and \<^verbatim>\<open>src/utils/clustering.ts\<close>
  compute on JavaScript numbers. A number is modelled as a real, or one of the three
  special values the code can meet: \<^verbatim>\<open>Infinity\<close>, \<^verbatim>\<open>-Infinity\<close> (the literals that
  initialise the running minima and maxima) and \<^verbatim>\<open>NaN\<close> (what arithmetic on
  \<^verbatim>\<open>undefined\<close>, the value of an out-of-range array read, produces). The arithmetic
  follows IEEE 754 on the special values and is exact on the finite ones: the rounding
  and the overflow of double arithmetic and the sign of zero are not modelled. The
  rounding of a store into a \<^verbatim>\<open>Float32Array\<close> is modelled, by \<open>f32\<close> below.
\<close>

datatype jsnum = Fin real | PInf | NInf | NaN

fun jneg :: "jsnum \<Rightarrow> jsnum" where
  "jneg (Fin a) = Fin (- a)"
| "jneg PInf = NInf"
| "jneg NInf = PInf"
| "jneg NaN = NaN"

fun jadd :: "jsnum \<Rightarrow> jsnum \<Rightarrow> jsnum" where
  "jadd NaN _ = NaN"
| "jadd _ NaN = NaN"
| "jadd (Fin a) (Fin b) = Fin (a + b)"
| "jadd PInf NInf = NaN"
| "jadd NInf PInf = NaN"
| "jadd PInf _ = PInf"
| "jadd _ PInf = PInf"
| "jadd NInf _ = NInf"
| "jadd _ NInf = NInf"

definition jsub :: "jsnum \<Rightarrow> jsnum \<Rightarrow> jsnum" where
  "jsub a b = jadd a (jneg b)"

text \<open>The sign of a product or quotient with an infinite operand.\<close>

definition signed_inf :: "bool \<Rightarrow> jsnum" where
  "signed_inf positive = (if positive then PInf else NInf)"

fun jmul :: "jsnum \<Rightarrow> jsnum \<Rightarrow> jsnum" where
  "jmul NaN _ = NaN"
| "jmul _ NaN = NaN"
| "jmul (Fin a) (Fin b) = Fin (a * b)"
| "jmul (Fin a) PInf = (if a = 0 then NaN else signed_inf (0 < a))"
| "jmul (Fin a) NInf = (if a = 0 then NaN else signed_inf (a < 0))"
| "jmul PInf (Fin b) = (if b = 0 then NaN else signed_inf (0 < b))"
| "jmul NInf (Fin b) = (if b = 0 then NaN else signed_inf (b < 0))"
| "jmul PInf PInf = PInf"
| "jmul NInf NInf = PInf"
| "jmul PInf NInf = NInf"
| "jmul NInf PInf = NInf"

fun jdiv :: "jsnum \<Rightarrow> jsnum \<Rightarrow> jsnum" where
  "jdiv NaN _ = NaN"
| "jdiv _ NaN = NaN"
| "jdiv (Fin a) (Fin b) =
     (if b = 0 then (if a = 0 then NaN else signed_inf (0 < a)) else Fin (a / b))"
| "jdiv (Fin a) _ = Fin 0"
| "jdiv PInf (Fin b) = signed_inf (0 \<le> b)"
| "jdiv NInf (Fin b) = signed_inf (b < 0)"
| "jdiv _ _ = NaN"

text \<open>The comparison \<^verbatim>\<open>x < y\<close>: false as soon as one side is \<^verbatim>\<open>NaN\<close>.\<close>

fun jlt :: "jsnum \<Rightarrow> jsnum \<Rightarrow> bool" where
  "jlt NaN _ = False"
| "jlt _ NaN = False"
| "jlt (Fin a) (Fin b) = (a < b)"
| "jlt _ NInf = False"
| "jlt PInf _ = False"
| "jlt _ _ = True"

definition jgt :: "jsnum \<Rightarrow> jsnum \<Rightarrow> bool" where
  "jgt a b = jlt b a"



fun is_fin :: "jsnum \<Rightarrow> bool" where
  "is_fin (Fin _) = True"
| "is_fin _ = False"




section \<open>Vector operations (\<^verbatim>\<open>src/utils/embeddings.ts\<close>)\<close>

text \<open>
  A vector (\<^verbatim>\<open>Float32Array | number[]\<close>) is a list of numbers. Reading an index at
  or beyond the length gives \<^verbatim>\<open>undefined\<close>, which the multiplication in \<^verbatim>\<open>dot\<close>
  turns into \<^verbatim>\<open>NaN\<close>; \<open>rd\<close> is that read as an operand.
\<close>

definition rd :: "jsnum list \<Rightarrow> nat \<Rightarrow> jsnum" where
  "rd xs i = (if i < length xs then xs ! i else NaN)"

text \<open>
  \<^verbatim>\<open>let s = 0; for (let i = 0; i < a.length; i++) s += a[i] * b[i]; return s;\<close>
  The loop runs over the indices of \<open>a\<close>; the source has no check on the length of \<open>b\<close>
  and no \<^verbatim>\<open>throw\<close>.
\<close>

definition dot :: "jsnum list \<Rightarrow> jsnum list \<Rightarrow> jsnum" where
  "dot a b = fold (\<lambda>i s. jadd s (jmul (rd a i) (rd b i))) [0..<length a] (Fin 0)"

definition cosine :: "jsnum list \<Rightarrow> jsnum list \<Rightarrow> jsnum" where
  "cosine a b = dot a b"


subsection \<open>The similarity matrix\<close>





subsection \<open>Nearest neighbours\<close>

text \<open>The entries \<^verbatim>\<open>{ j, s }\<close> of a neighbour list: \<open>nj\<close> is the field \<^verbatim>\<open>j\<close>, \<open>ns\<close> the field \<^verbatim>\<open>s\<close>.\<close>

record neighbor =
  nj :: nat
  ns :: jsnum

text \<open>
  \<^verbatim>\<open>Array.prototype.sort(comparefn)\<close> is a built-in of the language. It is stable, it
  reads a \<^verbatim>\<open>NaN\<close> returned by the comparator as \<open>0\<close>, and a positive result
  \<open>cmp x y\<close> puts \<open>x\<close> after \<open>y\<close>. On a consistent comparator every stable sort
  returns the same array; here it is insertion from the right, which keeps the
  earlier of two elements the comparator does not separate in front. Where the
  comparator is not consistent (\<^verbatim>\<open>NaN\<close> scores next to two different finite ones) the
  language leaves the order to the engine, and \<open>sort_by\<close> is one such order, not the
  engine's.
\<close>

fun insert_by :: "('a \<Rightarrow> 'a \<Rightarrow> jsnum) \<Rightarrow> 'a \<Rightarrow> 'a list \<Rightarrow> 'a list" where
  "insert_by cmp x [] = [x]"
| "insert_by cmp x (y # ys) =
     (if jgt (cmp x y) (Fin 0) then y # insert_by cmp x ys else x # y # ys)"

definition sort_by :: "('a \<Rightarrow> 'a \<Rightarrow> jsnum) \<Rightarrow> 'a list \<Rightarrow> 'a list" where
  "sort_by cmp xs = foldr (insert_by cmp) xs []"

text \<open>\<^verbatim>\<open>for (let j = 0; j < n; j++) if (j !== i) sims.push({ j, s: cosine(vectors[i], vectors[j]) })\<close>\<close>

definition sims_of :: "jsnum list list \<Rightarrow> nat \<Rightarrow> neighbor list" where
  "sims_of vectors i =
     map (\<lambda>j. \<lparr>nj = j, ns = cosine (vectors ! i) (vectors ! j)\<rparr>)
         (filter (\<lambda>j. j \<noteq> i) [0..<length vectors])"

text \<open>\<^verbatim>\<open>sims.sort((a, b) => b.s - a.s); result.push(sims.slice(0, k));\<close>\<close>

definition nearestNeighbors :: "jsnum list list \<Rightarrow> nat \<Rightarrow> neighbor list list" where
  "nearestNeighbors vectors k =
     map (\<lambda>i. take k (sort_by (\<lambda>a b. jsub (ns b) (ns a)) (sims_of vectors i)))
         [0..<length vectors]"

section \<open>Clustering and layout (\<^verbatim>\<open>src/utils/clustering.ts\<close>)\<close>

text \<open>A 2D point \<^verbatim>\<open>[x, y]\<close>.\<close>

type_synonym point = "jsnum \<times> jsnum"

datatype js_error = TypeError

record kmeans_result =
  labels :: "nat list"
  centers :: "point list"

text \<open>
  The scan for the nearest centre of one point:
  \<^verbatim>\<open>let best = 0, bestd = Infinity; for (c ...) { ...; if (d < bestd) { bestd = d; best = c; } }\<close>
\<close>

definition nearest :: "point list \<Rightarrow> point \<Rightarrow> nat" where
  "nearest cs p =
     fst (fold (\<lambda>c (best, bestd).
            let dx = jsub (fst p) (fst (cs ! c));
                dy = jsub (snd p) (snd (cs ! c));
                d = jadd (jmul dx dx) (jmul dy dy)
            in if jlt d bestd then (c, d) else (best, bestd))
          [0..<length cs] (0, PInf))"

text \<open>
  The loop that adds every point to the sum and the count of its label (\<open>sm\<close> is
  the array \<^verbatim>\<open>sum\<close>). \<^verbatim>\<open>sum[c][0]\<close>
  with \<open>c\<close> beyond the arrays reads a property of \<^verbatim>\<open>undefined\<close>, which throws a
  \<^verbatim>\<open>TypeError\<close>.
\<close>

fun accumulate ::
  "(nat \<times> point) list \<Rightarrow> point list \<times> nat list \<Rightarrow> js_error + (point list \<times> nat list)" where
  "accumulate [] acc = Inr acc"
| "accumulate ((c, p) # rest) (sm, cnt) =
     (if c < length sm
      then accumulate rest
             (sm[c := (jadd (fst (sm ! c)) (fst p), jadd (snd (sm ! c)) (snd p))],
              cnt[c := cnt ! c + 1])
      else Inl TypeError)"

text \<open>\<^verbatim>\<open>if (cnt[c] > 0) { centers[c][0] = sum[c][0] / cnt[c]; centers[c][1] = sum[c][1] / cnt[c]; }\<close>\<close>

definition recenter :: "point list \<Rightarrow> point list \<Rightarrow> nat list \<Rightarrow> point list" where
  "recenter cs sm cnt =
     fold (\<lambda>c cs. if 0 < cnt ! c
                   then cs[c := (jdiv (fst (sm ! c)) (Fin (real (cnt ! c))),
                                 jdiv (snd (sm ! c)) (Fin (real (cnt ! c))))]
                   else cs)
          [0..<length cs] cs"

text \<open>One pass of the outer loop per unit of the iteration budget.\<close>

fun iterate ::
  "nat \<Rightarrow> point list \<Rightarrow> nat list \<times> point list \<Rightarrow> js_error + (nat list \<times> point list)" where
  "iterate 0 points st = Inr st"
| "iterate (Suc it) points (ls, cs) =
     (let ls' = map (nearest cs) points
      in case accumulate (zip ls' points)
                (map (\<lambda>_. (Fin 0, Fin 0)) cs, map (\<lambda>_. 0) cs) of
           Inl e \<Rightarrow> Inl e
         | Inr (sm, cnt) \<Rightarrow> iterate it points (ls', recenter cs sm cnt))"

text \<open>\<^verbatim>\<open>for (let i = 0; i < k && i < n; i++) centers.push([...points[i]]);\<close>\<close>

definition initial_centers :: "point list \<Rightarrow> nat \<Rightarrow> point list" where
  "initial_centers points k = map (\<lambda>i. points ! i) [0..<min k (length points)]"

definition kmeans :: "point list \<Rightarrow> nat \<Rightarrow> nat \<Rightarrow> js_error + kmeans_result" where
  "kmeans points k iters =
     (if length points = 0 then Inr \<lparr>labels = [], centers = []\<rparr>
      else
        let n = length points;
            cs = initial_centers points k;
            ls = replicate n 0
        in case iterate iters points (ls, cs) of
             Inl e \<Rightarrow> Inl e
           | Inr (ls', cs') \<Rightarrow> Inr \<lparr>labels = ls', centers = cs'\<rparr>)"

subsection \<open>Scaling coordinates to the viewport\<close>








section \<open>The toy embedding\<close>






section \<open>The 2D projection of the gallery (\<^verbatim>\<open>coordsRaw\<close>)\<close>

text \<open>
  \<^verbatim>\<open>PCA\<close> (ml-pca) and \<^verbatim>\<open>UMAP\<close> (umap-js) are external libraries: they are the
  parameters \<open>pca\<close> and \<open>umap\<close>, which either return the projected points or throw.
  \<open>umap\<close> takes \<^verbatim>\<open>nNeighbors\<close> and \<^verbatim>\<open>minDist\<close>. The array \<^verbatim>\<open>vectors\<close> is
  \<^verbatim>\<open>words.map(...)\<close>, so \<^verbatim>\<open>words.length\<close> is its length.
\<close>

datatype proj_method = Umap | Pca

definition seed :: real where
  "seed = 1337"

text \<open>\<^verbatim>\<open>function rand(i) { const x = Math.sin(seed + i) * 10000; return x - Math.floor(x); }\<close>\<close>

definition rand :: "nat \<Rightarrow> real" where
  "rand i = (let x = sin (seed + real i) * 10000 in x - of_int \<lfloor>x\<rfloor>)"

definition fallback :: "jsnum list list \<Rightarrow> jsnum list list \<Rightarrow> point list" where
  "fallback X vectors =
     (let d = (case X of [] \<Rightarrow> 64 | x0 # _ \<Rightarrow> length x0);
          a = map (\<lambda>i. Fin (rand i - 0.5)) [0..<d];
          b = map (\<lambda>i. Fin (rand (i + 17) - 0.5)) [0..<d]
      in map (\<lambda>v. (dot v a, dot v b)) vectors)"

definition coordsRaw ::
  "(jsnum list list \<Rightarrow> 'e + point list) \<Rightarrow> (nat \<Rightarrow> jsnum \<Rightarrow> jsnum list list \<Rightarrow> 'e + point list) \<Rightarrow>
   jsnum list list \<Rightarrow> proj_method \<Rightarrow> jsnum \<Rightarrow> nat \<Rightarrow> point list" where
  "coordsRaw pca umap vectors method umapMinDist umapNNeighbors =
     (if length vectors = 0 then []
      else
        let X = vectors
        in if length X < 3
           then map (\<lambda>i. (Fin (real i * 30), Fin (real i * 30))) [0..<length X]
           else
             case (if method = Pca then pca X
                   else umap (max 2 (min umapNNeighbors (length X - 1))) umapMinDist X) of
               Inr Y \<Rightarrow> Y
             | Inl e \<Rightarrow> fallback X vectors)"

section \<open>Notions of the specification\<close>

text \<open>
  The embedding vectors of the data model: a list of vectors of one dimension \<open>d\<close> whose
  entries are finite numbers.
\<close>

definition embedding_set :: "nat \<Rightarrow> jsnum list list \<Rightarrow> bool" where
  "embedding_set d vectors = list_all (\<lambda>v. length v = d \<and> list_all is_fin v) vectors"



text \<open>
  The order of a neighbour list: \<open>a\<close> stands before \<open>b\<close> when its similarity is
  greater, or equal with the lower index.
\<close>

definition ranked_before :: "neighbor \<Rightarrow> neighbor \<Rightarrow> bool" where
  "ranked_before a b = (jlt (ns b) (ns a) \<or> (ns a = ns b \<and> nj a < nj b))"

text \<open>Every similarity of point \<open>i\<close> to another point is a finite number.\<close>

definition finite_scores :: "jsnum list list \<Rightarrow> nat \<Rightarrow> bool" where
  "finite_scores vectors i = list_all (\<lambda>e. is_fin (ns e)) (sims_of vectors i)"






section \<open>Properties of the numbers\<close>










section \<open>Properties of the vector operations\<close>

subsection \<open>Vectors of different lengths\<close>

lemma jadd_NaN_right: "jadd x NaN = NaN"
  by (cases x) simp_all

lemma jmul_NaN_right: "jmul x NaN = NaN"
  by (cases x) simp_all

lemma fold_jadd_NaN: "fold (\<lambda>i acc. jadd acc (g i)) js NaN = NaN"
  by (induction js) simp_all

lemma fold_jadd_hits_NaN:
  "n \<in> set js \<Longrightarrow> g n = NaN \<Longrightarrow> fold (\<lambda>i acc. jadd acc (g i)) js acc0 = NaN"
proof (induction js arbitrary: acc0)
  case Nil
  then show ?case by simp
next
  case (Cons i js)
  show ?case
  proof (cases "i = n")
    case True
    with Cons.prems show ?thesis by (simp add: jadd_NaN_right fold_jadd_NaN)
  next
    case False
    with Cons show ?thesis by simp
  qed
qed

lemma dot_short_is_NaN: "length b < length a \<Longrightarrow> dot a b = NaN"
proof -
  assume lt: "length b < length a"
  have "fold (\<lambda>i acc. jadd acc (jmul (rd a i) (rd b i))) [0..<length a] (Fin 0) = NaN"
  proof (rule fold_jadd_hits_NaN [where n = "length b"])
    show "length b \<in> set [0..<length a]" using lt by simp
    show "jmul (rd a (length b)) (rd b (length b)) = NaN"
      by (simp add: rd_def jmul_NaN_right)
  qed
  then show ?thesis by (simp add: dot_def)
qed

lemma dot_ignores_tail: "length a \<le> length b \<Longrightarrow> dot a b = dot a (take (length a) b)"
proof -
  assume le: "length a \<le> length b"
  have "fold (\<lambda>i s. jadd s (jmul (rd a i) (rd b i))) [0..<length a] (Fin 0) =
        fold (\<lambda>i s. jadd s (jmul (rd a i) (rd (take (length a) b) i))) [0..<length a] (Fin 0)"
  proof (rule fold_cong)
    fix i assume "i \<in> set [0..<length a]"
    then have "rd b i = rd (take (length a) b) i" using le by (simp add: rd_def)
    then show "(\<lambda>s. jadd s (jmul (rd a i) (rd b i))) = (\<lambda>s. jadd s (jmul (rd a i) (rd (take (length a) b) i)))"
      by simp
  qed simp_all
  then show ?thesis by (simp add: dot_def)
qed


text \<open>
  C1 (as the code has it). \<^verbatim>\<open>dot\<close>, and \<^verbatim>\<open>cosine\<close>, which is \<^verbatim>\<open>dot\<close>, never fail:
  on vectors of different lengths they still return a number. When \<open>b\<close> is longer than
  \<open>a\<close> the result is the dot product of \<open>a\<close> with the first \<open>length a\<close> entries of
  \<open>b\<close>: the rest of \<open>b\<close> is ignored. When \<open>b\<close> is shorter than \<open>a\<close> the result is
  \<^verbatim>\<open>NaN\<close>.
\<close>

theorem dot_length_mismatch:
  "(length a < length b \<longrightarrow> dot a b = dot a (take (length a) b)) \<and>
   (length b < length a \<longrightarrow> dot a b = NaN) \<and>
   cosine a b = dot a b"
  using dot_ignores_tail [of a b] by (simp add: dot_short_is_NaN cosine_def)

theorem dot_length_mismatch_witness:
  "length [Fin 1] < length [Fin 3, Fin 4] \<and>
   dot [Fin 1] [Fin 3, Fin 4] = dot [Fin 1] (take (length [Fin 1]) [Fin 3, Fin 4]) \<and>
   length [Fin 3] < length [Fin 1, Fin 2] \<and> dot [Fin 1, Fin 2] [Fin 3] = NaN"
  using dot_length_mismatch [of "[Fin 1]" "[Fin 3, Fin 4]"]
        dot_length_mismatch [of "[Fin 1, Fin 2]" "[Fin 3]"]
  by simp

text \<open>
  C1 as stated fails: \<^verbatim>\<open>dot([1], [3, 4])\<close> is the number 3, the value of
  \<^verbatim>\<open>dot([1], [3])\<close>, and no error.
\<close>

theorem dot_mismatch_counterexample:
  "length [Fin 1] \<noteq> length [Fin 3, Fin 4] \<and> dot [Fin 1] [Fin 3, Fin 4] = Fin 3 \<and>
   cosine [Fin 1] [Fin 3, Fin 4] = Fin 3"
  by (simp add: dot_def cosine_def rd_def)

subsection \<open>Finite vectors of one dimension\<close>

lemma is_fin_conv: "is_fin x \<longleftrightarrow> (\<exists>r. x = Fin r)"
  by (cases x) simp_all

lemma fold_dot_fin:
  "is_fin acc \<Longrightarrow> \<forall>i\<in>set js. is_fin (g i) \<Longrightarrow> is_fin (fold (\<lambda>i s. jadd s (g i)) js acc)"
  by (induction js arbitrary: acc) (auto simp: is_fin_conv)

lemma dot_fin:
  assumes "list_all is_fin a" "list_all is_fin b" "length a = length b"
  shows "is_fin (dot a b)"
  unfolding dot_def
proof (rule fold_dot_fin)
  show "is_fin (Fin 0)" by simp
  show "\<forall>i\<in>set [0..<length a]. is_fin (jmul (rd a i) (rd b i))"
  proof
    fix i assume "i \<in> set [0..<length a]"
    then have "is_fin (a ! i)" "is_fin (b ! i)" "i < length a" "i < length b"
      using assms by (auto simp: list_all_length)
    then show "is_fin (jmul (rd a i) (rd b i))"
      by (auto simp: rd_def is_fin_conv)
  qed
qed

lemma set_insert_by: "set (insert_by cmp x ys) = insert x (set ys)"
  by (induction ys) auto

lemma length_insert_by: "length (insert_by cmp x ys) = Suc (length ys)"
  by (induction ys) auto

lemma set_sort_by: "set (sort_by cmp xs) = set xs"
  by (induction xs) (auto simp: sort_by_def set_insert_by)

lemma length_sort_by: "length (sort_by cmp xs) = length xs"
  by (induction xs) (auto simp: sort_by_def length_insert_by)

lemma ranked_before_trans:
  "is_fin (ns a) \<Longrightarrow> is_fin (ns b) \<Longrightarrow> is_fin (ns c) \<Longrightarrow>
   ranked_before a b \<Longrightarrow> ranked_before b c \<Longrightarrow> ranked_before a c"
  by (auto simp: ranked_before_def is_fin_conv)

lemma insert_by_ranked:
  assumes "sorted_wrt ranked_before ys" "\<forall>y\<in>set ys. nj x < nj y"
    "is_fin (ns x)" "\<forall>y\<in>set ys. is_fin (ns y)"
  shows "sorted_wrt ranked_before (insert_by (\<lambda>a b. jsub (ns b) (ns a)) x ys)"
  using assms
proof (induction ys)
  case Nil
  then show ?case by simp
next
  case (Cons y ys)
  obtain rx ry where r: "ns x = Fin rx" "ns y = Fin ry"
    using Cons.prems by (auto simp: is_fin_conv)
  show ?case
  proof (cases "jgt (jsub (ns y) (ns x)) (Fin 0)")
    case True
    then have "ranked_before y x" using r by (simp add: jgt_def jsub_def ranked_before_def)
    with True Cons show ?thesis by (auto simp: set_insert_by)
  next
    case False
    then have xy: "ranked_before x y" using r Cons.prems(2)
      by (auto simp: jgt_def jsub_def ranked_before_def)
    have "ranked_before x z" if "z \<in> set ys" for z
    proof -
      have "ranked_before y z" using Cons.prems(1) that by simp
      then show ?thesis
        using xy Cons.prems(3,4) that ranked_before_trans [of x y z] by simp
    qed
    with False xy Cons.prems(1) show ?thesis by simp
  qed
qed

lemma sort_by_ranked:
  assumes "sorted_wrt (\<lambda>a b. nj a < nj b) xs" "\<forall>x\<in>set xs. is_fin (ns x)"
  shows "sorted_wrt ranked_before (sort_by (\<lambda>a b. jsub (ns b) (ns a)) xs)"
  using assms
proof (induction xs)
  case Nil
  then show ?case by (simp add: sort_by_def)
next
  case (Cons x xs)
  have "sorted_wrt ranked_before (insert_by (\<lambda>a b. jsub (ns b) (ns a)) x (sort_by (\<lambda>a b. jsub (ns b) (ns a)) xs))"
    using Cons by (intro insert_by_ranked) (auto simp: set_sort_by)
  then show ?case by (simp add: sort_by_def)
qed

lemma others_split: "i < n \<Longrightarrow> filter (\<lambda>j. j \<noteq> i) [0..<n] = [0..<i] @ [Suc i..<n]"
proof -
  assume "i < n"
  then have "[0..<n] = [0..<i] @ i # [Suc i..<n]"
    using upt_add_eq_append [of 0 i "n - i"] by (simp add: upt_conv_Cons)
  then show ?thesis by simp
qed

lemma length_others: "i < n \<Longrightarrow> length (filter (\<lambda>j. j \<noteq> i) [0..<n]) = n - 1"
  by (simp add: others_split)

lemma sims_of_increasing: "sorted_wrt (\<lambda>a b. nj a < nj b) (sims_of vectors i)"
  unfolding sims_of_def by (simp add: sorted_wrt_map sorted_wrt_filter)

lemma sims_of_fin:
  assumes "embedding_set d vectors" "i < length vectors" "e \<in> set (sims_of vectors i)"
  shows "is_fin (ns e)"
proof -
  obtain j where j: "j < length vectors" "e = \<lparr>nj = j, ns = cosine (vectors ! i) (vectors ! j)\<rparr>"
    using assms(3) by (auto simp: sims_of_def)
  have "length (vectors ! i) = length (vectors ! j)" "list_all is_fin (vectors ! i)"
    "list_all is_fin (vectors ! j)"
    using assms(1,2) j(1) by (auto simp: embedding_set_def list_all_length)
  then show ?thesis using j(2) by (simp add: cosine_def dot_fin)
qed

text \<open>On embedding vectors every similarity is a finite number.\<close>

lemma finite_scores_embedding:
  "embedding_set d vectors \<Longrightarrow> i < length vectors \<Longrightarrow> finite_scores vectors i"
  by (simp add: finite_scores_def list_all_iff sims_of_fin)

subsection \<open>The neighbour lists\<close>

text \<open>
  C2 (as the code has it). For every point \<open>i\<close> of a list of \<open>N\<close> vectors and every
  \<open>k\<close>, the neighbour list of \<open>i\<close> has \<open>min k (N - 1)\<close> entries, no entry has the index
  \<open>i\<close>, and every entry carries the raw cosine of \<open>i\<close> and its index. Where every
  similarity of point \<open>i\<close> is a finite number, the list is in descending order of
  similarity, and entries of equal similarity stand in the order of their indices.
  The comparator \<^verbatim>\<open>b.s - a.s\<close> is then a consistent one, on which every sort of the
  language returns the list of \<open>sort_by\<close>.
\<close>

theorem nearestNeighbors_ranked:
  assumes "i < length vectors"
  shows "length (nearestNeighbors vectors k) = length vectors \<and>
         length (nearestNeighbors vectors k ! i) = min k (length vectors - 1) \<and>
         (\<forall>e\<in>set (nearestNeighbors vectors k ! i).
            nj e \<noteq> i \<and> nj e < length vectors \<and> ns e = cosine (vectors ! i) (vectors ! nj e)) \<and>
         (finite_scores vectors i \<longrightarrow> sorted_wrt ranked_before (nearestNeighbors vectors k ! i))"
proof (intro conjI impI ballI)
  let ?cmp = "\<lambda>a b. jsub (ns b) (ns a)"
  have row: "nearestNeighbors vectors k ! i = take k (sort_by ?cmp (sims_of vectors i))"
    using assms by (simp add: nearestNeighbors_def)
  show "length (nearestNeighbors vectors k) = length vectors"
    by (simp add: nearestNeighbors_def)
  show "length (nearestNeighbors vectors k ! i) = min k (length vectors - 1)"
    using assms by (simp add: row length_sort_by sims_of_def length_others min.commute)
  { fix e assume "e \<in> set (nearestNeighbors vectors k ! i)"
    then have "e \<in> set (sims_of vectors i)"
      using set_take_subset [of k "sort_by ?cmp (sims_of vectors i)"]
      by (auto simp: row set_sort_by)
    then obtain j where "j < length vectors" "j \<noteq> i"
      "e = \<lparr>nj = j, ns = cosine (vectors ! i) (vectors ! j)\<rparr>"
      by (auto simp: sims_of_def)
    then show "nj e \<noteq> i" "nj e < length vectors" "ns e = cosine (vectors ! i) (vectors ! nj e)"
      by simp_all }
  assume "finite_scores vectors i"
  then have fin: "\<forall>e\<in>set (sims_of vectors i). is_fin (ns e)"
    by (simp add: finite_scores_def list_all_iff)
  have "sorted_wrt ranked_before (sort_by ?cmp (sims_of vectors i))"
    using sims_of_increasing fin by (rule sort_by_ranked)
  then show "sorted_wrt ranked_before (nearestNeighbors vectors k ! i)"
    by (simp add: row sorted_wrt_take)
qed

theorem nearestNeighbors_ranked_witness:
  "(0::nat) < length [[Fin 1, Fin 0], [Fin 0, Fin 1], [Fin 1, Fin 0], [Fin 0, Fin 1]] \<and>
   finite_scores [[Fin 1, Fin 0], [Fin 0, Fin 1], [Fin 1, Fin 0], [Fin 0, Fin 1]] 0 \<and>
   nearestNeighbors [[Fin 1, Fin 0], [Fin 0, Fin 1], [Fin 1, Fin 0], [Fin 0, Fin 1]] 3 ! 0 =
     [\<lparr>nj = 2, ns = Fin 1\<rparr>, \<lparr>nj = 1, ns = Fin 0\<rparr>, \<lparr>nj = 3, ns = Fin 0\<rparr>] \<and>
   sorted_wrt ranked_before
     (nearestNeighbors [[Fin 1, Fin 0], [Fin 0, Fin 1], [Fin 1, Fin 0], [Fin 0, Fin 1]] 3 ! 0)"
proof -
  let ?vs = "[[Fin 1, Fin 0], [Fin 0, Fin 1], [Fin 1, Fin 0], [Fin 0, Fin 1]]"
  have "embedding_set 2 ?vs" by (simp add: embedding_set_def)
  then have f: "finite_scores ?vs 0" by (rule finite_scores_embedding) simp
  have v: "nearestNeighbors ?vs 3 ! 0 =
      [\<lparr>nj = 2, ns = Fin 1\<rparr>, \<lparr>nj = 1, ns = Fin 0\<rparr>, \<lparr>nj = 3, ns = Fin 0\<rparr>]"
    by (simp add: nearestNeighbors_def sims_of_def sort_by_def cosine_def dot_def rd_def
        jsub_def jgt_def)
  have "sorted_wrt ranked_before (nearestNeighbors ?vs 3 ! 0)"
    using f nearestNeighbors_ranked [of 0 ?vs 3] by simp
  then show ?thesis using f v by simp
qed

text \<open>
  C2 as stated fails. In the list \<^verbatim>\<open>[[1, 1], [1], [1, 0]]\<close> the second vector is
  shorter than the first, and the similarity of point 0 to it is \<^verbatim>\<open>NaN\<close>. Every
  comparison of the sort involves it and yields \<^verbatim>\<open>NaN\<close>, which the sort takes for
  "equal": the comparator is consistent, and the list of point 0 keeps the order of
  the indices. The similarity \<^verbatim>\<open>NaN\<close> stands before the similarity 1, and the list
  is not in descending order.
\<close>

theorem nearestNeighbors_counterexample:
  "nearestNeighbors [[Fin 1, Fin 1], [Fin 1], [Fin 1, Fin 0]] 2 ! 0 =
     [\<lparr>nj = 1, ns = NaN\<rparr>, \<lparr>nj = 2, ns = Fin 1\<rparr>] \<and>
   \<not> finite_scores [[Fin 1, Fin 1], [Fin 1], [Fin 1, Fin 0]] 0 \<and>
   \<not> sorted_wrt ranked_before (nearestNeighbors [[Fin 1, Fin 1], [Fin 1], [Fin 1, Fin 0]] 2 ! 0)"
  by (simp add: nearestNeighbors_def sims_of_def sort_by_def cosine_def dot_def rd_def
      jsub_def jgt_def finite_scores_def ranked_before_def)

subsection \<open>The similarity matrix\<close>























section \<open>Properties of the layout\<close>

subsection \<open>The bounding box\<close>























section \<open>Properties of the clustering\<close>

lemma nearest_scan_bound:
  "fst st < n \<Longrightarrow> \<forall>c\<in>set js. c < n \<Longrightarrow>
   fst (fold (\<lambda>c (best, bestd).
          let dx = jsub (fst p) (fst (cs ! c));
              dy = jsub (snd p) (snd (cs ! c));
              d = jadd (jmul dx dx) (jmul dy dy)
          in if jlt d bestd then (c, d) else (best, bestd)) js st) < n"
  by (induction js arbitrary: st) (auto simp: Let_def split: prod.splits)

lemma nearest_bound: "cs \<noteq> [] \<Longrightarrow> nearest cs p < length cs"
  unfolding nearest_def by (rule nearest_scan_bound) simp_all

lemma accumulate_ok:
  "\<forall>(c, q)\<in>set lps. c < length sm \<Longrightarrow>
   \<exists>sm' cnt'. accumulate lps (sm, cnt) = Inr (sm', cnt') \<and> length sm' = length sm"
proof (induction lps arbitrary: sm cnt)
  case Nil
  then show ?case by simp
next
  case (Cons cp lps)
  obtain c q where cp: "cp = (c, q)" by (cases cp)
  let ?sm = "sm[c := (jadd (fst (sm ! c)) (fst q), jadd (snd (sm ! c)) (snd q))]"
  have c: "c < length sm" using Cons.prems cp by simp
  have "\<forall>(c, q)\<in>set lps. c < length ?sm" using Cons.prems by simp
  then obtain sm' cnt' where
    "accumulate lps (?sm, cnt[c := cnt ! c + 1]) = Inr (sm', cnt')" "length sm' = length ?sm"
    using Cons.IH by blast
  then show ?case using c by (simp add: cp)
qed

lemma length_recenter: "length (recenter cs sm cnt) = length cs"
proof -
  have "length (fold (\<lambda>c cs. if 0 < cnt ! c
                   then cs[c := (jdiv (fst (sm ! c)) (Fin (real (cnt ! c))),
                                 jdiv (snd (sm ! c)) (Fin (real (cnt ! c))))]
                   else cs) js cs') = length cs'" for js cs'
    by (induction js arbitrary: cs') simp_all
  then show ?thesis by (simp add: recenter_def)
qed

lemma iterate_ok:
  assumes "cs \<noteq> []" "length ls = length points" "\<forall>l\<in>set ls. l < length cs"
  shows "\<exists>ls' cs'. iterate it points (ls, cs) = Inr (ls', cs') \<and> length ls' = length points \<and>
           (\<forall>l\<in>set ls'. l < length cs) \<and> length cs' = length cs"
  using assms
proof (induction it arbitrary: ls cs)
  case 0
  then show ?case by simp
next
  case (Suc it)
  let ?ls = "map (nearest cs) points"
  have lab: "\<forall>l\<in>set ?ls. l < length cs" using Suc.prems(1) by (simp add: nearest_bound)
  have "\<forall>(c, q)\<in>set (zip ?ls points). c < length (map (\<lambda>_. (Fin 0, Fin 0)) cs)"
  proof (clarify)
    fix c q assume "(c, q) \<in> set (zip ?ls points)"
    then have "c \<in> set ?ls" by (rule set_zip_leftD)
    then show "c < length (map (\<lambda>_. (Fin 0, Fin 0)) cs)" using lab by auto
  qed
  then obtain sm cnt where acc:
    "accumulate (zip ?ls points) (map (\<lambda>_. (Fin 0, Fin 0)) cs, map (\<lambda>_. 0) cs) = Inr (sm, cnt)"
    using accumulate_ok by blast
  have len: "length (recenter cs sm cnt) = length cs" by (rule length_recenter)
  then have ne: "recenter cs sm cnt \<noteq> []" using Suc.prems(1) by auto
  have "\<exists>ls' cs'. iterate it points (?ls, recenter cs sm cnt) = Inr (ls', cs') \<and>
          length ls' = length points \<and> (\<forall>l\<in>set ls'. l < length (recenter cs sm cnt)) \<and>
          length cs' = length (recenter cs sm cnt)"
    using lab len by (intro Suc.IH [OF ne]) simp_all
  then show ?case by (simp add: acc len Let_def)
qed

lemma initial_centers_take: "initial_centers points k = take k points"
  unfolding initial_centers_def by (rule nth_equalityI) (simp_all add: min.commute)

lemma kmeans_ok:
  assumes "points \<noteq> []" "1 \<le> k"
  shows "\<exists>r. kmeans points k iters = Inr r \<and> length (labels r) = length points \<and>
           (\<forall>l\<in>set (labels r). l < min k (length points)) \<and>
           length (centers r) = min k (length points)"
proof -
  let ?cs = "initial_centers points k"
  have len: "length ?cs = min k (length points)" by (simp add: initial_centers_def)
  then have ne: "?cs \<noteq> []" using assms by (cases points) auto
  obtain ls' cs' where it: "iterate iters points (replicate (length points) 0, ?cs) = Inr (ls', cs')"
    "length ls' = length points" "\<forall>l\<in>set ls'. l < length ?cs" "length cs' = length ?cs"
    using iterate_ok [OF ne, of "replicate (length points) 0" points iters] ne by auto
  have "kmeans points k iters = Inr \<lparr>labels = ls', centers = cs'\<rparr>"
    using assms(1) by (simp add: kmeans_def Let_def it(1))
  then show ?thesis using it(2,3,4) len by simp
qed


text \<open>
  C6. For every non-empty list of 2D points, every cluster count \<open>k \<ge> 1\<close> and every
  iteration budget, \<^verbatim>\<open>kmeans\<close> returns, with one label per point, each label in
  \<open>[0, k)\<close>; two runs on the same input and parameters return the same labels; and the
  empty list of points gives the empty list of labels.
\<close>

theorem kmeans_labels:
  "kmeans [] k iters = Inr \<lparr>labels = [], centers = []\<rparr> \<and>
   (points \<noteq> [] \<and> 1 \<le> k \<longrightarrow>
      (\<exists>r. kmeans points k iters = Inr r \<and> length (labels r) = length points \<and>
           (\<forall>l\<in>set (labels r). l < k))) \<and>
   (\<forall>r r'. kmeans points k iters = Inr r \<and> kmeans points k iters = Inr r' \<longrightarrow>
      labels r = labels r')"
proof (intro conjI impI allI)
  show "kmeans [] k iters = Inr \<lparr>labels = [], centers = []\<rparr>"
    by (simp add: kmeans_def)
  show "\<exists>r. kmeans points k iters = Inr r \<and> length (labels r) = length points \<and>
           (\<forall>l\<in>set (labels r). l < k)" if pk: "points \<noteq> [] \<and> 1 \<le> k"
  proof -
    obtain r where r: "kmeans points k iters = Inr r" "length (labels r) = length points"
      "\<forall>l\<in>set (labels r). l < min k (length points)"
      using kmeans_ok [of points k iters] pk by blast
    then have "\<forall>l\<in>set (labels r). l < k" by auto
    with r(1,2) show ?thesis by blast
  qed
  show "labels r = labels r'"
    if "kmeans points k iters = Inr r \<and> kmeans points k iters = Inr r'" for r r'
    using that by auto
qed

text \<open>
  The bound \<open>k \<ge> 1\<close> matters: with no centre every label is 0 and the first
  \<^verbatim>\<open>sum[c][0] += ...\<close> throws.
\<close>

lemma kmeans_zero_clusters: "kmeans [(Fin 0, Fin 0)] 0 1 = Inl TypeError"
  by (simp add: kmeans_def initial_centers_def nearest_def)

lemmas kmeans_eval =
  kmeans_def initial_centers_def nearest_def recenter_def jsub_def Let_def eval_nat_numeral

theorem kmeans_labels_witness:
  "[(Fin 0, Fin 0), (Fin 10, Fin 10), (Fin 1, Fin 1), (Fin 9, Fin 9)] \<noteq> [] \<and> (1::nat) \<le> 2 \<and>
   kmeans [(Fin 0, Fin 0), (Fin 10, Fin 10), (Fin 1, Fin 1), (Fin 9, Fin 9)] 2 10 =
     Inr \<lparr>labels = [0, 1, 0, 1],
          centers = [(Fin (1 / 2), Fin (1 / 2)), (Fin (19 / 2), Fin (19 / 2))]\<rparr> \<and>
   (\<exists>r. kmeans [(Fin 0, Fin 0), (Fin 10, Fin 10), (Fin 1, Fin 1), (Fin 9, Fin 9)] 2 10 = Inr r \<and>
        length (labels r) = 4 \<and> (\<forall>l\<in>set (labels r). l < 2))"
proof -
  let ?ps = "[(Fin 0, Fin 0), (Fin 10, Fin 10), (Fin 1, Fin 1), (Fin 9, Fin 9)]"
  have run: "kmeans ?ps 2 10 =
     Inr \<lparr>labels = [0, 1, 0, 1],
          centers = [(Fin (1 / 2), Fin (1 / 2)), (Fin (19 / 2), Fin (19 / 2))]\<rparr>"
    by (simp add: kmeans_eval)
  have "\<exists>r. kmeans ?ps 2 10 = Inr r \<and> length (labels r) = length ?ps \<and>
          (\<forall>l\<in>set (labels r). l < 2)"
    using kmeans_labels [of 2 10 ?ps] by simp
  then show ?thesis using run by simp
qed

text \<open>
  C9. For a non-empty list of \<open>n\<close> points and \<open>k \<ge> 1\<close>, \<^verbatim>\<open>kmeans\<close> creates
  \<open>min k n\<close> centres, copies of the first \<open>min k n\<close> points (all the points when
  \<open>k\<close> exceeds \<open>n\<close>); the list of centres it returns has length \<open>min k n\<close> and
  every label it returns lies in \<open>[0, min k n)\<close>.
\<close>

theorem kmeans_centers:
  assumes "points \<noteq> []" "1 \<le> k"
  shows "initial_centers points k = take (min k (length points)) points \<and>
         (length points < k \<longrightarrow> initial_centers points k = points) \<and>
         (\<exists>r. kmeans points k iters = Inr r \<and>
              length (centers r) = min k (length points) \<and>
              (\<forall>l\<in>set (labels r). l < min k (length points)))"
proof -
  have "initial_centers points k = take (min k (length points)) points"
    by (cases "k \<le> length points") (simp_all add: initial_centers_take min_def)
  moreover have "initial_centers points k = points" if "length points < k"
    using that by (simp add: initial_centers_take)
  moreover have "\<exists>r. kmeans points k iters = Inr r \<and>
              length (centers r) = min k (length points) \<and>
              (\<forall>l\<in>set (labels r). l < min k (length points))"
    using kmeans_ok [OF assms, of iters] by blast
  ultimately show ?thesis by blast
qed

theorem kmeans_centers_witness:
  "[(Fin 0, Fin 0), (Fin 10, Fin 10)] \<noteq> [] \<and> (1::nat) \<le> 5 \<and>
   length [(Fin 0, Fin 0), (Fin 10, Fin 10)] < (5::nat) \<and>
   initial_centers [(Fin 0, Fin 0), (Fin 10, Fin 10)] 5 = [(Fin 0, Fin 0), (Fin 10, Fin 10)] \<and>
   kmeans [(Fin 0, Fin 0), (Fin 10, Fin 10)] 5 10 =
     Inr \<lparr>labels = [0, 1], centers = [(Fin 0, Fin 0), (Fin 10, Fin 10)]\<rparr>"
proof -
  let ?ps = "[(Fin 0, Fin 0), (Fin 10, Fin 10)]"
  have ne: "?ps \<noteq> []" and k: "(1::nat) \<le> 5" by simp_all
  have "initial_centers ?ps 5 = ?ps"
    using kmeans_centers [OF ne k, of 10] by simp
  moreover have "kmeans ?ps 5 10 = Inr \<lparr>labels = [0, 1], centers = ?ps\<rparr>"
    by (simp add: kmeans_eval)
  ultimately show ?thesis by simp
qed


section \<open>Properties of the projection\<close>

text \<open>
  C7. For one or two vectors the projection returns the placeholder coordinates
  \<open>[i * 30, i * 30]\<close> of each index \<open>i\<close>, so \<open>[0, 0]\<close> and \<open>[30, 30]\<close> for two
  vectors. The result is the same for every backend, method and parameters: no backend
  is called.
\<close>

theorem coordsRaw_placeholder:
  assumes "vectors \<noteq> []" "length vectors < 3"
  shows "coordsRaw pca umap vectors method umapMinDist umapNNeighbors =
           map (\<lambda>i. (Fin (real i * 30), Fin (real i * 30))) [0..<length vectors] \<and>
         coordsRaw pca umap vectors method umapMinDist umapNNeighbors =
           coordsRaw pca' umap' vectors method' umapMinDist' umapNNeighbors' \<and>
         (length vectors = 2 \<longrightarrow>
            coordsRaw pca umap vectors method umapMinDist umapNNeighbors =
              [(Fin 0, Fin 0), (Fin 30, Fin 30)])"
proof -
  have a: "coordsRaw pca umap vectors method umapMinDist umapNNeighbors =
           map (\<lambda>i. (Fin (real i * 30), Fin (real i * 30))) [0..<length vectors]"
    using assms by (simp add: coordsRaw_def Let_def)
  have b: "coordsRaw pca' umap' vectors method' umapMinDist' umapNNeighbors' =
           map (\<lambda>i. (Fin (real i * 30), Fin (real i * 30))) [0..<length vectors]"
    using assms by (simp add: coordsRaw_def Let_def)
  have c: "map (\<lambda>i. (Fin (real i * 30), Fin (real i * 30))) [0..<length vectors] =
      [(Fin 0, Fin 0), (Fin 30, Fin 30)]" if "length vectors = 2"
    using that by (simp add: eval_nat_numeral)
  show ?thesis using a b c by simp
qed

theorem coordsRaw_placeholder_witness:
  "[[Fin 1, Fin 0], [Fin 0, Fin 1]] \<noteq> [] \<and> length [[Fin 1, Fin 0], [Fin 0, Fin 1]] < 3 \<and>
   coordsRaw (\<lambda>X. Inl ()) (\<lambda>n m X. Inl ()) [[Fin 1, Fin 0], [Fin 0, Fin 1]] Umap (Fin 0.15) 12 =
     [(Fin 0, Fin 0), (Fin 30, Fin 30)] \<and>
   coordsRaw (\<lambda>X. Inr [(Fin 7, Fin 7), (Fin 8, Fin 8)]) (\<lambda>n m X. Inl ())
       [[Fin 1, Fin 0], [Fin 0, Fin 1]] Pca (Fin 0.5) 3 =
     [(Fin 0, Fin 0), (Fin 30, Fin 30)]"
proof -
  let ?vs = "[[Fin 1, Fin 0], [Fin 0, Fin 1]]"
  have ne: "?vs \<noteq> []" and small: "length ?vs < 3" by simp_all
  note run = coordsRaw_placeholder [OF ne small,
      of "\<lambda>X. Inl ()" "\<lambda>n m X. Inl ()" Umap "Fin 0.15" 12
         "\<lambda>X. Inr [(Fin 7, Fin 7), (Fin 8, Fin 8)]" "\<lambda>n m X. Inl ()" Pca "Fin 0.5" 3]
  have a: "coordsRaw (\<lambda>X. Inl ()) (\<lambda>n m X. Inl ()) ?vs Umap (Fin 0.15) 12 =
     [(Fin 0, Fin 0), (Fin 30, Fin 30)]"
    using run [THEN conjunct1] by simp
  have b: "coordsRaw (\<lambda>X. Inr [(Fin 7, Fin 7), (Fin 8, Fin 8)]) (\<lambda>n m X. Inl ()) ?vs Pca (Fin 0.5) 3 =
     coordsRaw (\<lambda>X. Inl ()) (\<lambda>n m X. Inl ()) ?vs Umap (Fin 0.15) 12"
    by (rule run [THEN conjunct2, THEN conjunct1, symmetric])
  show ?thesis unfolding b a by simp
qed


lemma rand_frac: "rand i = frac (sin (1337 + real i) * 10000)"
  by (simp add: rand_def seed_def Let_def frac_def)

lemma rand_unit: "0 \<le> rand i \<and> rand i < 1"
  by (simp add: rand_frac frac_lt_1)





section \<open>Properties of the toy embedding\<close>










end
